theory Spec2Isabelle
  imports Complex_Main "HOL-Library.List_Lexorder" "HOL-Library.Char_ord"
begin

section \<open>Python strings\<close>

text \<open>
  A Python \<open>str\<close> is modelled as a \<open>string\<close>; each \<open>char\<close> stands for one code point
  below 256. The order on strings (\<open>List_Lexorder\<close> over \<open>Char_ord\<close>) is the
  lexicographic order by code point, which is the order Python's \<open>sorted\<close> uses on
  \<open>str\<close>.
\<close>

text \<open>\<open>str.isspace\<close> on one code point below 256: tab, line feed, vertical tab, form
  feed, carriage return, the separators 0x1c to 0x1f, space, 0x85 and 0xa0.\<close>

definition isspace :: "char \<Rightarrow> bool" where
  "isspace c = (of_char c \<in> {9, 10, 11, 12, 13, 28, 29, 30, 31, 32, 133, 160 :: nat})"

text \<open>\<open>s.strip()\<close>: leading and trailing whitespace removed.\<close>

definition strip :: "string \<Rightarrow> string" where
  "strip s = rev (dropWhile isspace (rev (dropWhile isspace s)))"

text \<open>\<open>s.startswith(p)\<close>.\<close>

definition startswith :: "string \<Rightarrow> string \<Rightarrow> bool" where
  "startswith s p = (take (length p) s = p)"

text \<open>The test \<open>not stripped or stripped.startswith('#')\<close> that validator and chunker
  use to skip blank lines and comments.\<close>

definition skipped :: "string \<Rightarrow> bool" where
  "skipped stripped = (stripped = [] \<or> startswith stripped ''#'')"

section \<open>The standard library's \<open>ipaddress.ip_network\<close>\<close>

text \<open>
  \<open>ipaddress.ip_network(s, strict=False)\<close> belongs to the Python standard library, not
  to the repository. The functions that call it take it as a parameter: a function from
  the string to either the message of the \<open>ValueError\<close> it raises (\<open>Inl\<close>) or the
  network object it returns (\<open>Inr\<close>). A network object is an \<open>IPv4Network\<close> or an
  \<open>IPv6Network\<close>; the string it carries is \<open>str(network)\<close>, the canonical form with the
  host bits cleared.
\<close>

datatype network = IPv4Network string | IPv6Network string

fun version :: "network \<Rightarrow> nat" where
  "version (IPv4Network _) = 4"
| "version (IPv6Network _) = 6"

fun str_of :: "network \<Rightarrow> string" where
  "str_of (IPv4Network s) = s"
| "str_of (IPv6Network s) = s"

type_synonym ip_parser = "string \<Rightarrow> string + network"

section \<open>validate.py\<close>

subsection \<open>\<open>validate_cidr\<close>\<close>

definition validate_cidr :: "ip_parser \<Rightarrow> string \<Rightarrow> bool \<times> string option" where
  "validate_cidr ip_network raw =
     (let line = strip raw in
      if line = [] \<or> startswith line ''#'' then (True, None)
      else (case ip_network line of
              Inr network \<Rightarrow>
                if version network \<noteq> 4
                then (False, Some (''IPv6 not supported: '' @ line))
                else (True, None)
            | Inl e \<Rightarrow> (False, Some e)))"

subsection \<open>\<open>validate_file\<close>\<close>

text \<open>One entry of \<open>results['errors']\<close>: the keys \<open>line\<close>, \<open>content\<close> and \<open>error\<close>.\<close>

record error_entry =
  e_line :: nat
  e_content :: string
  e_error :: "string option"

text \<open>The \<open>results\<close> dictionary. Its entry \<open>duplicate_entries\<close> is a set while the file is
  scanned and a sorted list in the value returned, hence the type parameter.\<close>

record 'd results =
  file_str :: string
  total_lines :: nat
  valid_cidrs :: nat
  invalid_cidrs :: nat
  duplicates :: nat
  errors :: "error_entry list"
  duplicate_entries :: 'd

definition init_results :: "string \<Rightarrow> string set results" where
  "init_results filepath =
     \<lparr>file_str = filepath, total_lines = 0, valid_cidrs = 0, invalid_cidrs = 0,
      duplicates = 0, errors = [], duplicate_entries = {}\<rparr>"

text \<open>The body of the loop \<open>for line_num, line in enumerate(f, 1)\<close>. The state is the
  dictionary \<open>results\<close> and the set \<open>seen_cidrs\<close>.\<close>

fun validate_line ::
  "ip_parser \<Rightarrow> string set results \<times> string set \<Rightarrow> nat \<times> string
     \<Rightarrow> string set results \<times> string set" where
  "validate_line ip_network (results0, seen_cidrs) (line_num, raw) =
     (let results = results0\<lparr>total_lines := total_lines results0 + 1\<rparr>;
          stripped = strip raw
      in if stripped = [] \<or> startswith stripped ''#'' then (results, seen_cidrs)
         else (case validate_cidr ip_network stripped of
                 (False, err) \<Rightarrow>
                   (results\<lparr>invalid_cidrs := invalid_cidrs results + 1,
                            errors := errors results @
                              [\<lparr>e_line = line_num, e_content = stripped, e_error = err\<rparr>]\<rparr>,
                    seen_cidrs)
               | (True, _) \<Rightarrow>
                   (case ip_network stripped of
                      Inl _ \<Rightarrow> (results, seen_cidrs)
                    | Inr network \<Rightarrow>
                        (let normalized = str_of network
                         in if normalized \<in> seen_cidrs
                            then (results\<lparr>duplicates := duplicates results + 1,
                                           duplicate_entries :=
                                             insert normalized (duplicate_entries results)\<rparr>,
                                  seen_cidrs)
                            else (results\<lparr>valid_cidrs := valid_cidrs results + 1\<rparr>,
                                  insert normalized seen_cidrs)))))"

text \<open>The file is given by the lines its iterator yields.\<close>

definition scan_file ::
  "ip_parser \<Rightarrow> string \<Rightarrow> string list \<Rightarrow> string set results \<times> string set" where
  "scan_file ip_network filepath lines =
     foldl (validate_line ip_network) (init_results filepath, {}) (enumerate 1 lines)"

definition validate_file :: "ip_parser \<Rightarrow> string \<Rightarrow> string list \<Rightarrow> string list results" where
  "validate_file ip_network filepath lines =
     (let results = fst (scan_file ip_network filepath lines)
      in \<lparr>file_str = file_str results, total_lines = total_lines results,
          valid_cidrs = valid_cidrs results, invalid_cidrs = invalid_cidrs results,
          duplicates = duplicates results, errors = errors results,
          duplicate_entries = sorted_list_of_set (duplicate_entries results)\<rparr>)"

subsection \<open>\<open>main\<close> of validate.py\<close>




text \<open>\<open>s.split(sep)\<close> for a separator of one character.\<close>

fun split_on :: "char \<Rightarrow> string \<Rightarrow> string list" where
  "split_on sep [] = [[]]"
| "split_on sep (c # cs) =
     (if c = sep then [] # split_on sep cs
      else (case split_on sep cs of
              [] \<Rightarrow> [[c]]
            | w # ws \<Rightarrow> (c # w) # ws))"

text \<open>\<open>s.split()\<close>: the maximal runs of characters that are not whitespace. The first
  argument of \<open>split_ws_from\<close> is the run read so far.\<close>

fun split_ws_from :: "string \<Rightarrow> string \<Rightarrow> string list" where
  "split_ws_from cur [] = (if cur = [] then [] else [cur])"
| "split_ws_from cur (c # cs) =
     (if isspace c then (if cur = [] then split_ws_from [] cs else cur # split_ws_from [] cs)
      else split_ws_from (cur @ [c]) cs)"

definition split_ws :: "string \<Rightarrow> string list" where
  "split_ws s = split_ws_from [] s"

text \<open>\<open>str(n)\<close> for a natural number: its decimal digits.\<close>

definition digit_char :: "nat \<Rightarrow> char" where
  "digit_char d = ''0123456789'' ! (d mod 10)"

fun show_nat :: "nat \<Rightarrow> string" where
  "show_nat n = (if n < 10 then [digit_char n] else show_nat (n div 10) @ [digit_char n])"

declare show_nat.simps [simp del]

section \<open>A reference parser for dotted-quad networks\<close>

text \<open>
  \<open>ipv4_network\<close> follows \<open>ipaddress.IPv4Network(s, strict=False)\<close> on the notations
  \<open>a.b.c.d\<close> and \<open>a.b.c.d/n\<close>: four decimal octets of at most three digits, no leading
  zero, each at most 255; a decimal prefix length of at most 32; the host bits are
  cleared in the result. Every other string is rejected with the message of
  \<open>ip_network\<close>. It instantiates the parser parameter at concrete inputs; the functions of
  the repository never refer to it.
\<close>

definition isdigit :: "char \<Rightarrow> bool" where
  "isdigit c = (c \<in> set ''0123456789'')"

definition digit_val :: "char \<Rightarrow> int" where
  "digit_val c = of_char c - 48"

definition int_of_digits :: "string \<Rightarrow> int" where
  "int_of_digits s = foldl (\<lambda>a c. 10 * a + digit_val c) 0 s"

definition parse_octet :: "string \<Rightarrow> int option" where
  "parse_octet s =
     (if s = [] \<or> \<not> list_all isdigit s \<or> 3 < length s \<or> (s \<noteq> ''0'' \<and> hd s = CHR ''0'')
         \<or> 255 < int_of_digits s
      then None else Some (int_of_digits s))"

fun address_of_octets :: "int option list \<Rightarrow> int option" where
  "address_of_octets [Some a, Some b, Some c, Some d] = Some (((a * 256 + b) * 256 + c) * 256 + d)"
| "address_of_octets _ = None"

definition parse_address :: "string \<Rightarrow> int option" where
  "parse_address s = address_of_octets (map parse_octet (split_on CHR ''.'' s))"

definition parse_prefixlen :: "string \<Rightarrow> nat option" where
  "parse_prefixlen s =
     (if s = [] \<or> \<not> list_all isdigit s \<or> 32 < int_of_digits s then None
      else Some (nat (int_of_digits s)))"

definition show_address :: "int \<Rightarrow> string" where
  "show_address a =
     show_nat (nat (a div 16777216 mod 256)) @ ''.'' @ show_nat (nat (a div 65536 mod 256)) @ ''.'' @
     show_nat (nat (a div 256 mod 256)) @ ''.'' @ show_nat (nat (a mod 256))"

definition show_network :: "int \<Rightarrow> nat \<Rightarrow> string" where
  "show_network a n = show_address (a div 2 ^ (32 - n) * 2 ^ (32 - n)) @ ''/'' @ show_nat n"

definition no_network :: "string \<Rightarrow> string" where
  "no_network s = [CHR 0x27] @ s @ [CHR 0x27] @ '' does not appear to be an IPv4 or IPv6 network''"

fun network_of_parts :: "string \<Rightarrow> string list \<Rightarrow> string + network" where
  "network_of_parts s [a] =
     (case parse_address a of
        Some addr \<Rightarrow> Inr (IPv4Network (show_network addr 32))
      | None \<Rightarrow> Inl (no_network s))"
| "network_of_parts s [a, p] =
     (case parse_address a of
        Some addr \<Rightarrow>
          (case parse_prefixlen p of
             Some n \<Rightarrow> Inr (IPv4Network (show_network addr n))
           | None \<Rightarrow> Inl (no_network s))
      | None \<Rightarrow> Inl (no_network s))"
| "network_of_parts s _ = Inl (no_network s)"

definition ipv4_network :: ip_parser where
  "ipv4_network s = network_of_parts s (split_on CHR ''/'' s)"

section \<open>Notions used to state the properties of the validator\<close>

text \<open>The normal form of a line that is an entry the validator accepts: the line is neither
  blank nor a comment and parses as an IPv4 network. \<open>None\<close> for every other line.\<close>

definition entry_norm :: "ip_parser \<Rightarrow> string \<Rightarrow> string option" where
  "entry_norm ip_network raw =
     (let stripped = strip raw
      in if skipped stripped then None
         else (case ip_network stripped of
                 Inr (IPv4Network n) \<Rightarrow> Some n
               | _ \<Rightarrow> None))"

text \<open>A line that is neither blank nor a comment and is not an IPv4 network.\<close>

definition is_invalid :: "ip_parser \<Rightarrow> string \<Rightarrow> bool" where
  "is_invalid ip_network raw =
     (let stripped = strip raw
      in \<not> skipped stripped \<and>
         (case ip_network stripped of Inr (IPv4Network n) \<Rightarrow> False | _ \<Rightarrow> True))"

text \<open>The normal forms of the accepted entries of a file, in file order.\<close>

definition normalized :: "ip_parser \<Rightarrow> string list \<Rightarrow> string list" where
  "normalized ip_network lines = List.map_filter (entry_norm ip_network) lines"

text \<open>The values that occur more than once in a list.\<close>

definition repeated :: "string list \<Rightarrow> string set" where
  "repeated ns = {y. 1 < count_list ns y}"

text \<open>The invariant of the loop of \<open>validate_file\<close> after the lines \<open>ls\<close>.\<close>

definition scan_ok :: "ip_parser \<Rightarrow> string \<Rightarrow> string list \<Rightarrow> string set results \<times> string set \<Rightarrow> bool" where
  "scan_ok ip_network fp ls st =
     (case st of (r, seen) \<Rightarrow>
        seen = set (normalized ip_network ls) \<and>
        file_str r = fp \<and>
        total_lines r = length ls \<and>
        valid_cidrs r = card (set (normalized ip_network ls)) \<and>
        invalid_cidrs r = length (filter (is_invalid ip_network) ls) \<and>
        duplicates r = length (normalized ip_network ls) - card (set (normalized ip_network ls)) \<and>
        duplicate_entries r = repeated (normalized ip_network ls))"


text \<open>The three counters of a report.\<close>

definition counters :: "'d results \<Rightarrow> nat \<times> nat \<times> nat" where
  "counters r = (valid_cidrs r, invalid_cidrs r, duplicates r)"


text \<open>A parser that knows one IPv6 network and otherwise is \<open>ipv4_network\<close>; it
  instantiates the parameter where an IPv6 result is needed.\<close>

definition dual_stack_example :: ip_parser where
  "dual_stack_example s =
     (if s = ''2001:db8::/32'' then Inr (IPv6Network ''2001:db8::/32'') else ipv4_network s)"




section \<open>chunk.py\<close>

text \<open>
  A path is a value of a type \<open>'p\<close>. The operations of \<open>pathlib\<close> that \<open>chunk_file\<close> uses
  are parameters: \<open>joinpath\<close> is \<open>output_dir / output_filename\<close> and \<open>stem\<close> is
  \<open>input_path.stem\<close>. The files that are written are a map from paths to their text;
  \<open>mkdir\<close> leaves it as it is. The input file is given by the lines its iterator yields.
  Printing is not part of the model.
\<close>

definition read_cidrs :: "string list \<Rightarrow> string list" where
  "read_cidrs lines =
     filter (\<lambda>stripped. stripped \<noteq> [] \<and> \<not> startswith stripped ''#'') (map strip lines)"

definition write_chunk :: "('p \<rightharpoonup> string) \<Rightarrow> string list \<Rightarrow> 'p \<Rightarrow> ('p \<rightharpoonup> string)" where
  "write_chunk fs cidrs output_path =
     fs(output_path \<mapsto> concat (map (\<lambda>cidr. cidr @ [CHR 0x0A]) cidrs))"

text \<open>The slice \<open>xs[start:stop]\<close> of Python: a negative index counts from the end, and
  both indices are clamped to the list.\<close>

definition py_slice :: "'a list \<Rightarrow> int \<Rightarrow> int \<Rightarrow> 'a list" where
  "py_slice xs start stop =
     (let n = int (length xs);
          lo = (if start < 0 then max 0 (start + n) else min start n);
          hi = (if stop < 0 then max 0 (stop + n) else min stop n)
      in take (nat (hi - lo)) (drop (nat lo) xs))"

text \<open>The format \<open>{chunk_num:03d}\<close> of a number that is not negative: its decimal digits,
  padded with zeros on the left to a width of three.\<close>

definition format_03d :: "nat \<Rightarrow> string" where
  "format_03d n = replicate (3 - length (show_nat n)) CHR ''0'' @ show_nat n"

datatype chunk_error = ZeroDivisionError

text \<open>The body of the loop \<open>for i in range(num_chunks)\<close>; the state is \<open>output_files\<close>
  and the files written.\<close>

fun chunk_step ::
  "('p \<Rightarrow> string \<Rightarrow> 'p) \<Rightarrow> string list \<Rightarrow> 'p \<Rightarrow> int \<Rightarrow> string \<Rightarrow> bool
     \<Rightarrow> 'p list \<times> ('p \<rightharpoonup> string) \<Rightarrow> nat \<Rightarrow> 'p list \<times> ('p \<rightharpoonup> string)" where
  "chunk_step joinpath cidrs output_dir chunk_size prefix dry_run (output_files, fs) i =
     (let start = int i * chunk_size;
          stop = min ((int i + 1) * chunk_size) (int (length cidrs));
          chunk_cidrs = py_slice cidrs start stop;
          chunk_num = i + 1;
          output_filename = prefix @ ''-part-'' @ format_03d chunk_num @ ''.txt'';
          output_path = joinpath output_dir output_filename
      in (output_files @ [output_path],
          if dry_run then fs else write_chunk fs chunk_cidrs output_path))"

text \<open>\<open>chunk_file\<close> returns \<open>output_files\<close> and leaves the files as the second component;
  a chunk size of zero raises \<open>ZeroDivisionError\<close> before anything is written.\<close>

definition chunk_file ::
  "('p \<Rightarrow> string \<Rightarrow> 'p) \<Rightarrow> ('p \<Rightarrow> string) \<Rightarrow> ('p \<rightharpoonup> string) \<Rightarrow> string list \<Rightarrow> 'p \<Rightarrow> 'p
     \<Rightarrow> int \<Rightarrow> string option \<Rightarrow> bool \<Rightarrow> chunk_error + 'p list \<times> ('p \<rightharpoonup> string)" where
  "chunk_file joinpath stem fs lines input_path output_dir chunk_size prefix dry_run =
     (let cidrs = read_cidrs lines
      in if cidrs = [] then Inr ([], fs)
         else (let prefix' = (case prefix of None \<Rightarrow> stem input_path | Some p \<Rightarrow> p)
               in if chunk_size = 0 then Inl ZeroDivisionError
                  else (let num_chunks = (int (length cidrs) + chunk_size - 1) div chunk_size
                        in Inr (foldl (chunk_step joinpath cidrs output_dir chunk_size prefix'
                                         dry_run)
                                  ([], fs) [0..<nat num_chunks]))))"

section \<open>Notions used to state the properties of the chunker\<close>

text \<open>The name of the chunk file with the 0-based index \<open>i\<close>, as the loop forms it.\<close>

definition chunk_name :: "string \<Rightarrow> nat \<Rightarrow> string" where
  "chunk_name prefix i = prefix @ ''-part-'' @ format_03d (i + 1) @ ''.txt''"

text \<open>The text \<open>write_chunk\<close> writes for a list of entries: each entry and a line feed.\<close>

definition chunk_text :: "string list \<Rightarrow> string" where
  "chunk_text cidrs = concat (map (\<lambda>cidr. cidr @ [CHR 0x0A]) cidrs)"

text \<open>The \<open>i\<close>-th consecutive group of \<open>n\<close> entries.\<close>

definition chunk_of :: "string list \<Rightarrow> nat \<Rightarrow> nat \<Rightarrow> string list" where
  "chunk_of cidrs n i = take n (drop (i * n) cidrs)"

text \<open>The files after the chunks with the indices \<open>js\<close> have been written in that order.\<close>

definition write_chunks ::
  "('p \<Rightarrow> string \<Rightarrow> 'p) \<Rightarrow> 'p \<Rightarrow> string \<Rightarrow> string list \<Rightarrow> nat \<Rightarrow> ('p \<rightharpoonup> string) \<Rightarrow> nat list
     \<Rightarrow> ('p \<rightharpoonup> string)" where
  "write_chunks joinpath output_dir prefix cidrs n fs js =
     foldl (\<lambda>fs i. fs(joinpath output_dir (chunk_name prefix i) \<mapsto> chunk_text (chunk_of cidrs n i)))
       fs js"

text \<open>An instance of the two path operations on paths that are strings: joining with a
  slash, and the name up to its first dot.\<close>

definition posix_join :: "string \<Rightarrow> string \<Rightarrow> string" where
  "posix_join dir name = dir @ ''/'' @ name"

definition name_stem :: "string \<Rightarrow> string" where
  "name_stem path = takeWhile (\<lambda>c. c \<noteq> CHR ''.'') path"

section \<open>fetch.py\<close>

subsection \<open>The provider table\<close>

text \<open>One value of the dictionary \<open>PROVIDERS\<close>: the keys \<open>url\<close>, \<open>parser\<close> and \<open>output\<close>.\<close>

record provider =
  p_url :: string
  p_parser :: string
  p_output :: string

text \<open>\<open>PROVIDERS\<close> in the order of its keys.\<close>

definition PROVIDERS :: "(string \<times> provider) list" where
  "PROVIDERS =
     [(''aws'', \<lparr>p_url = ''https://ip-ranges.amazonaws.com/ip-ranges.json'',
                p_parser = ''aws_json'', p_output = ''lists/providers/aws.txt''\<rparr>),
      (''digitalocean'', \<lparr>p_url = ''https://www.digitalocean.com/geo/google.csv'',
                p_parser = ''digitalocean_csv'', p_output = ''lists/providers/digitalocean.txt''\<rparr>),
      (''linode'', \<lparr>p_url = ''https://geoip.linode.com/'',
                p_parser = ''linode_text'', p_output = ''lists/providers/linode.txt''\<rparr>),
      (''ovh'', \<lparr>p_url = ''https://www.ovh.com/manager/dedicated/allowerlist.json'',
                p_parser = ''ovh_json'', p_output = ''lists/providers/ovh.txt''\<rparr>),
      (''tor'', \<lparr>p_url = ''https://check.torproject.org/exit-addresses'',
                p_parser = ''tor_exit'', p_output = ''lists/providers/tor-exit-nodes.txt''\<rparr>),
      (''vultr'', \<lparr>p_url = ''https://www.vultr.com/resources/faq/#downloadableIPRanges'',
                p_parser = ''vultr_html'', p_output = ''lists/providers/vultr.txt''\<rparr>)]"

subsection \<open>Three of the parsers\<close>

text \<open>\<open>parse_tor_exit\<close>: the loop over \<open>content.split('\n')\<close> appends \<open>parts[1] + '/32'\<close>
  for every line that starts with \<open>ExitAddress \<close> and has at least two parts.\<close>

definition parse_tor_exit :: "string \<Rightarrow> string list" where
  "parse_tor_exit content =
     concat (map (\<lambda>line.
        if startswith line ''ExitAddress ''
        then (let parts = split_ws line
              in if 2 \<le> length parts then [parts ! 1 @ ''/32''] else [])
        else [])
       (split_on (CHR 0x0A) content))"

text \<open>\<open>parse_linode_text\<close>: the first field of every line that is neither blank nor a
  comment is kept when \<open>ip_network\<close> reads it as a network of version 4; a
  \<open>ValueError\<close> skips the line.\<close>

definition parse_linode_text :: "ip_parser \<Rightarrow> string \<Rightarrow> string list" where
  "parse_linode_text ip_network content =
     concat (map (\<lambda>raw.
        let line = strip raw
        in if line = [] \<or> startswith line ''#'' then []
           else (case split_on CHR '','' line of
                   [] \<Rightarrow> []
                 | part # _ \<Rightarrow>
                     (let cidr = strip part
                      in case ip_network cidr of
                           Inr network \<Rightarrow> if version network = 4 then [cidr] else []
                         | Inl _ \<Rightarrow> [])))
       (split_on (CHR 0x0A) (strip content)))"

text \<open>\<open>parse_vultr_html\<close>: \<open>findall\<close> stands for \<open>re.findall\<close> with the pattern of the
  source; a match is kept when \<open>ip_network\<close> reads it. The result is \<open>list(set(cidrs))\<close>:
  every kept match once, in an order Python does not fix; \<open>remdups\<close> is one such order.\<close>

definition parse_vultr_html :: "ip_parser \<Rightarrow> (string \<Rightarrow> string list) \<Rightarrow> string \<Rightarrow> string list" where
  "parse_vultr_html ip_network findall content =
     remdups (filter (\<lambda>m. case ip_network m of Inr _ \<Rightarrow> True | Inl _ \<Rightarrow> False)
                (findall content))"

subsection \<open>\<open>fetch_provider\<close>\<close>

text \<open>
  What the network and the parsers do are parameters. \<open>fetch_url\<close> maps a URL to the
  exception it raises or to the text it returns. \<open>PARSERS\<close> maps a parser name to a
  function from the text to the exception it raises or the list of CIDR strings it
  returns. The state holds the text of every file written and the URLs requested so
  far. Printing is not part of the model, and a write is taken to succeed.
\<close>

datatype exn = URLError string | JSONDecodeError string | OtherException string

record state =
  written :: "string \<rightharpoonup> string"
  requested :: "string list"

type_synonym fetcher = "string \<Rightarrow> exn + string"

type_synonym parsers = "string \<rightharpoonup> (string \<Rightarrow> exn + string list)"

text \<open>The three \<open>except\<close> clauses differ in the message they print and all return
  \<open>(False, 0)\<close>; so does the \<open>KeyError\<close> of a parser name that \<open>PARSERS\<close> lacks.\<close>

definition fetch_provider ::
  "fetcher \<Rightarrow> parsers \<Rightarrow> string \<Rightarrow> bool \<Rightarrow> state \<Rightarrow> (bool \<times> nat) \<times> state" where
  "fetch_provider fetch_url PARSERS name dry_run s =
     (case map_of PROVIDERS name of
        None \<Rightarrow> ((False, 0), s)
      | Some config \<Rightarrow>
          (let s1 = s\<lparr>requested := requested s @ [p_url config]\<rparr>
           in case fetch_url (p_url config) of
                Inl e \<Rightarrow> ((False, 0), s1)
              | Inr content \<Rightarrow>
                  (case PARSERS (p_parser config) of
                     None \<Rightarrow> ((False, 0), s1)
                   | Some parse \<Rightarrow>
                       (case parse content of
                          Inl e \<Rightarrow> ((False, 0), s1)
                        | Inr cidrs0 \<Rightarrow>
                            if cidrs0 = [] then ((False, 0), s1)
                            else (let cidrs = sorted_list_of_set (set cidrs0)
                                  in if dry_run then ((True, length cidrs), s1)
                                     else ((True, length cidrs),
                                           s1\<lparr>written := (written s1)(p_output config \<mapsto>
                                             concat (map (\<lambda>cidr. cidr @ [CHR 0x0A]) cidrs))\<rparr>))))))"

subsection \<open>\<open>main\<close> of fetch.py\<close>

record args =
  a_providers :: "string list"
  a_dry_run :: bool
  a_list :: bool

definition providers_to_fetch :: "args \<Rightarrow> string list" where
  "providers_to_fetch args =
     (if ''all'' \<in> set (a_providers args) then map fst PROVIDERS else a_providers args)"

text \<open>The body of the loop \<open>for name in providers_to_fetch\<close>; the state is
  \<open>success_count\<close>, \<open>total_cidrs\<close> and the state of the world.\<close>

fun fetch_one ::
  "fetcher \<Rightarrow> parsers \<Rightarrow> bool \<Rightarrow> nat \<times> nat \<times> state \<Rightarrow> string \<Rightarrow> nat \<times> nat \<times> state" where
  "fetch_one fetch_url PARSERS dry_run (success_count, total_cidrs, s) name =
     (case fetch_provider fetch_url PARSERS name dry_run s of
        ((success, count), s') \<Rightarrow>
          if success then (success_count + 1, total_cidrs + count, s')
          else (success_count, total_cidrs, s'))"

text \<open>\<open>main\<close> returns the exit status of the process and the state it leaves.\<close>

definition fetch_main :: "fetcher \<Rightarrow> parsers \<Rightarrow> args \<Rightarrow> state \<Rightarrow> nat \<times> state" where
  "fetch_main fetch_url PARSERS args s =
     (if a_list args then (0, s)
      else (case foldl (fetch_one fetch_url PARSERS (a_dry_run args)) (0, 0, s)
                   (providers_to_fetch args) of
              (success_count, total_cidrs, s') \<Rightarrow>
                (if success_count = length (providers_to_fetch args) then 0 else 1, s')))"

section \<open>Lemmas about the validator\<close>

lemma strip_idem: "strip (strip s) = strip s"
proof -
  define u where "u = dropWhile isspace s"
  define t where "t = rev (dropWhile isspace (rev u))"
  have "rev (takeWhile isspace (rev u) @ dropWhile isspace (rev u)) = rev (rev u)"
    by (simp only: takeWhile_dropWhile_id)
  then have ut: "u = t @ rev (takeWhile isspace (rev u))"
    by (simp only: rev_append rev_rev_ident t_def)
  have front: "dropWhile isspace t = t"
  proof (cases t)
    case Nil
    then show ?thesis by simp
  next
    case (Cons a as)
    with ut have "hd u = a" and "u \<noteq> []" by (cases u; simp)+
    moreover have "u \<noteq> [] \<Longrightarrow> \<not> isspace (hd u)"
      unfolding u_def by (rule hd_dropWhile)
    ultimately show ?thesis using Cons by simp
  qed
  have rear: "dropWhile isspace (rev t) = rev t"
    by (simp add: t_def)
  show ?thesis
    using front rear by (simp add: strip_def u_def [symmetric] t_def [symmetric])
qed

lemma validate_cidr_skipped:
  "skipped (strip raw) \<Longrightarrow> validate_cidr ip_network raw = (True, None)"
  by (simp add: validate_cidr_def skipped_def)

lemma validate_cidr_entry:
  "\<not> skipped (strip raw) \<Longrightarrow>
   validate_cidr ip_network raw =
     (case ip_network (strip raw) of
        Inr (IPv4Network n) \<Rightarrow> (True, None)
      | Inr (IPv6Network n) \<Rightarrow> (False, Some (''IPv6 not supported: '' @ strip raw))
      | Inl e \<Rightarrow> (False, Some e))"
  by (simp add: validate_cidr_def skipped_def split: sum.splits network.splits)

lemma validate_line_skipped:
  "skipped (strip raw) \<Longrightarrow>
   validate_line ip_network (r, seen) (k, raw) = (r\<lparr>total_lines := total_lines r + 1\<rparr>, seen)"
  by (simp add: skipped_def)

lemma validate_line_invalid:
  "is_invalid ip_network raw \<Longrightarrow>
   validate_line ip_network (r, seen) (k, raw) =
     (r\<lparr>total_lines := total_lines r + 1, invalid_cidrs := invalid_cidrs r + 1,
        errors := errors r @
          [\<lparr>e_line = k, e_content = strip raw,
            e_error = snd (validate_cidr ip_network (strip raw))\<rparr>]\<rparr>, seen)"
  using validate_cidr_entry [of "strip raw" ip_network]
  by (auto simp: is_invalid_def strip_idem skipped_def Let_def split: sum.splits network.splits)

lemma validate_line_entry:
  "entry_norm ip_network raw = Some x \<Longrightarrow>
   validate_line ip_network (r, seen) (k, raw) =
     (if x \<in> seen
      then (r\<lparr>total_lines := total_lines r + 1, duplicates := duplicates r + 1,
              duplicate_entries := insert x (duplicate_entries r)\<rparr>, seen)
      else (r\<lparr>total_lines := total_lines r + 1, valid_cidrs := valid_cidrs r + 1\<rparr>,
            insert x seen))"
  using validate_cidr_entry [of "strip raw" ip_network]
  by (auto simp: entry_norm_def strip_idem skipped_def Let_def
           split: sum.splits network.splits if_splits)

lemma line_cases:
  "skipped (strip raw) \<or> is_invalid ip_network raw \<or> (\<exists>x. entry_norm ip_network raw = Some x)"
  by (auto simp: is_invalid_def entry_norm_def Let_def split: sum.splits network.splits)

lemma scan_file_snoc:
  "scan_file ip_network fp (ls @ [l]) =
     validate_line ip_network (scan_file ip_network fp ls) (Suc (length ls), l)"
  by (simp add: scan_file_def enumerate_append_eq)


lemma normalized_snoc:
  "normalized ip_network (ls @ [l]) =
     normalized ip_network ls @ (case entry_norm ip_network l of None \<Rightarrow> [] | Some x \<Rightarrow> [x])"
  by (simp add: normalized_def map_filter_def split: option.splits)

lemma normalized_snoc_None:
  "entry_norm ip_network l = None \<Longrightarrow> normalized ip_network (ls @ [l]) = normalized ip_network ls"
  by (simp add: normalized_snoc)

lemma normalized_snoc_Some:
  "entry_norm ip_network l = Some x \<Longrightarrow>
   normalized ip_network (ls @ [l]) = normalized ip_network ls @ [x]"
  by (simp add: normalized_snoc)

lemma entry_norm_skipped: "skipped (strip l) \<Longrightarrow> entry_norm ip_network l = None"
  by (simp add: entry_norm_def)

lemma entry_norm_invalid: "is_invalid ip_network l \<Longrightarrow> entry_norm ip_network l = None"
  by (auto simp: entry_norm_def is_invalid_def Let_def split: sum.splits network.splits)

lemma is_invalid_skipped: "skipped (strip l) \<Longrightarrow> \<not> is_invalid ip_network l"
  by (simp add: is_invalid_def)

lemma is_invalid_entry: "entry_norm ip_network l = Some x \<Longrightarrow> \<not> is_invalid ip_network l"
  using entry_norm_invalid [of ip_network l] by auto

lemma repeated_snoc_old: "x \<in> set ns \<Longrightarrow> repeated (ns @ [x]) = insert x (repeated ns)"
proof -
  assume "x \<in> set ns"
  then have "count_list ns x \<noteq> 0" by (simp add: count_list_0_iff)
  then show ?thesis by (auto simp: repeated_def)
qed

lemma repeated_snoc_new: "x \<notin> set ns \<Longrightarrow> repeated (ns @ [x]) = repeated ns"
  by (auto simp: repeated_def count_list_0_iff)

lemma scan_ok_init: "scan_ok ip_network fp [] (init_results fp, {})"
  by (simp add: scan_ok_def init_results_def normalized_def map_filter_def repeated_def)

lemma scan_ok_step:
  assumes "scan_ok ip_network fp ls st"
  shows "scan_ok ip_network fp (ls @ [l]) (validate_line ip_network st (Suc (length ls), l))"
proof -
  obtain r seen where st: "st = (r, seen)" by (cases st)
  note inv = assms [unfolded st scan_ok_def, simplified]
  have le: "card (set (normalized ip_network ls)) \<le> length (normalized ip_network ls)"
    by (rule card_length)
  consider (skip) "skipped (strip l)" | (bad) "is_invalid ip_network l"
    | (entry) x where "entry_norm ip_network l = Some x"
    using line_cases [of l ip_network] by blast
  then show ?thesis
  proof cases
    case skip
    then show ?thesis
      using inv
      by (simp add: st scan_ok_def validate_line_skipped normalized_snoc_None
          entry_norm_skipped is_invalid_skipped del: validate_line.simps)
  next
    case bad
    then show ?thesis
      using inv
      by (simp add: st scan_ok_def validate_line_invalid normalized_snoc_None
          entry_norm_invalid del: validate_line.simps)
  next
    case entry
    show ?thesis
    proof (cases "x \<in> set (normalized ip_network ls)")
      case True
      then have "insert x (set (normalized ip_network ls)) = set (normalized ip_network ls)"
        by auto
      then show ?thesis
        using inv entry True le
        by (simp add: st scan_ok_def validate_line_entry normalized_snoc_Some
            is_invalid_entry repeated_snoc_old Suc_diff_le del: validate_line.simps)
    next
      case False
      then show ?thesis
        using inv entry le
        by (simp add: st scan_ok_def validate_line_entry normalized_snoc_Some
            is_invalid_entry repeated_snoc_new Suc_diff_le del: validate_line.simps)
    qed
  qed
qed

lemma scan_ok_scan_file: "scan_ok ip_network fp ls (scan_file ip_network fp ls)"
proof (induction ls rule: rev_induct)
  case Nil
  show ?case using scan_ok_init by (simp add: scan_file_def)
next
  case (snoc l ls)
  then show ?case by (simp only: scan_file_snoc scan_ok_step)
qed

lemma validate_file_fields:
  "valid_cidrs (validate_file ip_network fp ls) = valid_cidrs (fst (scan_file ip_network fp ls))"
  "invalid_cidrs (validate_file ip_network fp ls) = invalid_cidrs (fst (scan_file ip_network fp ls))"
  "duplicates (validate_file ip_network fp ls) = duplicates (fst (scan_file ip_network fp ls))"
  "total_lines (validate_file ip_network fp ls) = total_lines (fst (scan_file ip_network fp ls))"
  "duplicate_entries (validate_file ip_network fp ls) =
     sorted_list_of_set (duplicate_entries (fst (scan_file ip_network fp ls)))"
  by (simp_all add: validate_file_def Let_def)

lemma scan_file_counts:
  "valid_cidrs (fst (scan_file ip_network fp ls)) = card (set (normalized ip_network ls))"
  "invalid_cidrs (fst (scan_file ip_network fp ls)) = length (filter (is_invalid ip_network) ls)"
  "duplicates (fst (scan_file ip_network fp ls)) =
     length (normalized ip_network ls) - card (set (normalized ip_network ls))"
  "total_lines (fst (scan_file ip_network fp ls)) = length ls"
  "duplicate_entries (fst (scan_file ip_network fp ls)) = repeated (normalized ip_network ls)"
  "snd (scan_file ip_network fp ls) = set (normalized ip_network ls)"
  using scan_ok_scan_file [of ip_network fp ls]
  by (simp_all add: scan_ok_def split: prod.splits)

lemma finite_repeated: "finite (repeated ns)"
proof -
  have "repeated ns \<subseteq> set ns"
    by (auto simp: repeated_def count_list_0_iff intro: ccontr)
  then show ?thesis by (rule finite_subset) simp
qed

lemma length_normalized_filter:
  "length (normalized ip_network ls) + length (filter (is_invalid ip_network) ls) =
     length (filter (\<lambda>l. \<not> skipped (strip l)) ls)"
proof (induction ls rule: rev_induct)
  case Nil
  show ?case by (simp add: normalized_def map_filter_def)
next
  case (snoc l ls)
  consider (skip) "skipped (strip l)" | (bad) "is_invalid ip_network l"
    | (entry) x where "entry_norm ip_network l = Some x"
    using line_cases [of l ip_network] by blast
  then show ?case
  proof cases
    case skip
    then show ?thesis using snoc
      by (simp add: normalized_snoc_None entry_norm_skipped is_invalid_skipped)
  next
    case bad
    moreover from bad have "\<not> skipped (strip l)"
      using is_invalid_skipped [of l ip_network] by auto
    ultimately show ?thesis using snoc
      by (simp add: normalized_snoc_None entry_norm_invalid)
  next
    case entry
    moreover from entry have "\<not> skipped (strip l)"
      using entry_norm_skipped [of l ip_network] by auto
    ultimately show ?thesis using snoc
      by (simp add: normalized_snoc_Some is_invalid_entry)
  qed
qed

lemma strip_examples:
  "strip ''# list'' = ''# list''"
  "strip ''10.0.0.5/24'' = ''10.0.0.5/24''"
  "strip ''10.0.0.0/24'' = ''10.0.0.0/24''"
  "strip ''10.0.0.1/24'' = ''10.0.0.1/24''"
  "strip ''10.0.1.0/24'' = ''10.0.1.0/24''"
  "strip ''bad'' = ''bad''"
  "strip '' 2001:db8::/32 '' = ''2001:db8::/32''"
  "strip ''10.0.0.300/24'' = ''10.0.0.300/24''"
  by (simp_all add: strip_def isspace_def)

lemma ipv4_network_examples:
  "ipv4_network ''10.0.0.0/24'' = Inr (IPv4Network ''10.0.0.0/24'')"
  "ipv4_network ''10.0.0.1/24'' = Inr (IPv4Network ''10.0.0.0/24'')"
  "ipv4_network ''10.0.1.0/24'' = Inr (IPv4Network ''10.0.1.0/24'')"
  "ipv4_network ''10.0.0.5/24'' = Inr (IPv4Network ''10.0.0.0/24'')"
  "ipv4_network ''10.0.0.300/24'' = Inl (no_network ''10.0.0.300/24'')"
  "ipv4_network ''bad'' = Inl (no_network ''bad'')"
  by code_simp+





section \<open>Lemmas about the chunker\<close>

lemma py_slice_nat:
  "j \<le> length xs \<Longrightarrow>
   py_slice xs (int j) (min (int (j + n)) (int (length xs))) = take n (drop j xs)"
  by (auto simp: py_slice_def Let_def min_def nat_diff_distrib' nat_add_distrib)

lemma py_slice_chunk:
  assumes "i * n < length xs"
  shows "py_slice xs (int i * int n) (min ((int i + 1) * int n) (int (length xs))) =
           take n (drop (i * n) xs)"
proof -
  have a: "int i * int n = int (i * n)" by simp
  have b: "(int i + 1) * int n = int (i * n + n)" by (simp add: algebra_simps)
  from assms have "i * n \<le> length xs" by simp
  then show ?thesis
    unfolding a b by (rule py_slice_nat)
qed

lemma concat_chunks: "concat (map (\<lambda>i. take n (drop (i * n) xs)) [0..<k]) = take (k * n) xs"
proof (induction k)
  case 0
  show ?case by simp
next
  case (Suc k)
  have "take (k * n + n) xs = take (k * n) xs @ take n (drop (k * n) xs)"
    by (rule take_add)
  moreover have "Suc k * n = k * n + n" by simp
  ultimately show ?case using Suc by (simp del: mult_Suc)
qed

lemma ceil_div:
  assumes "0 < n"
  shows "(int m + int n - 1) div int n = \<lceil>real m / real n\<rceil>"
proof -
  define z where "z = (int m + int n - 1) div int n"
  have n: "0 < int n" using assms by simp
  define r where "r = (int m + int n - 1) mod int n"
  have split: "int n * z + r = int m + int n - 1"
    unfolding z_def r_def by (rule mult_div_mod_eq)
  have r0: "0 \<le> r" and r1: "r < int n"
    unfolding r_def using n by (simp_all add: pos_mod_sign pos_mod_bound)
  from split r0 have "int n * z \<le> int m + int n - 1" by linarith
  then have lower: "int n * (z - 1) < int m"
    by (simp add: algebra_simps)
  from split r1 have "int m + int n - 1 < int n * z + int n" by linarith
  then have upper: "int m \<le> int n * z" by simp
  have rn: "0 < real n" using assms by simp
  have "real_of_int z - 1 < real m / real n"
  proof -
    from lower have "real_of_int (int n * (z - 1)) < real_of_int (int m)"
      by (simp only: of_int_less_iff)
    then have "real n * (real_of_int z - 1) < real m" by simp
    then show ?thesis using rn by (simp add: pos_less_divide_eq mult.commute)
  qed
  moreover have "real m / real n \<le> real_of_int z"
  proof -
    from upper have "real_of_int (int m) \<le> real_of_int (int n * z)"
      by (simp only: of_int_le_iff)
    then have "real m \<le> real n * real_of_int z" by simp
    then show ?thesis using rn by (simp add: pos_divide_le_eq mult.commute)
  qed
  ultimately have "\<lceil>real m / real n\<rceil> = z" by (rule ceiling_unique)
  then show ?thesis by (simp add: z_def)
qed


lemma digit_val_digit_char: "digit_val (digit_char d) = int (d mod 10)"
proof -
  have "digit_val (''0123456789'' ! k) = int k" if "k < 10" for k
  proof -
    from that have "k = 0 \<or> k = 1 \<or> k = 2 \<or> k = 3 \<or> k = 4 \<or> k = 5 \<or> k = 6 \<or> k = 7 \<or> k = 8 \<or> k = 9"
      by arith
    then show ?thesis
      by (elim disjE) (simp_all add: digit_val_def)
  qed
  then show ?thesis
    by (simp add: digit_char_def)
qed

lemma int_of_digits_snoc: "int_of_digits (s @ [c]) = 10 * int_of_digits s + digit_val c"
  by (simp add: int_of_digits_def)

lemma int_of_digits_show_nat: "int_of_digits (show_nat n) = int n"
proof (induction n rule: show_nat.induct)
  case (1 n)
  show ?case
  proof (cases "n < 10")
    case True
    then show ?thesis
      by (subst show_nat.simps) (simp add: int_of_digits_def digit_val_digit_char)
  next
    case False
    have "int_of_digits (show_nat n) = 10 * int_of_digits (show_nat (n div 10)) + int (n mod 10)"
      using False by (subst show_nat.simps) (simp add: int_of_digits_snoc digit_val_digit_char)
    also have "\<dots> = 10 * int (n div 10) + int (n mod 10)"
      using 1 False by simp
    also have "\<dots> = int n"
      by (simp add: zdiv_int zmod_int)
    finally show ?thesis .
  qed
qed

lemma int_of_digits_zeros: "int_of_digits (replicate k CHR ''0'' @ s) = int_of_digits s"
proof (induction k)
  case 0
  show ?case by simp
next
  case (Suc k)
  have "foldl (\<lambda>a c. 10 * a + digit_val c) 0 (CHR ''0'' # t) =
      foldl (\<lambda>a c. 10 * a + digit_val c) 0 t" for t
    by (simp add: digit_val_def)
  with Suc show ?case by (simp add: int_of_digits_def)
qed

lemma format_03d_inj: "format_03d m = format_03d n \<Longrightarrow> m = n"
proof -
  assume "format_03d m = format_03d n"
  then have "int_of_digits (format_03d m) = int_of_digits (format_03d n)" by simp
  then show ?thesis
    by (simp add: format_03d_def int_of_digits_zeros int_of_digits_show_nat)
qed

lemma chunk_name_inj: "chunk_name prefix i = chunk_name prefix j \<Longrightarrow> i = j"
  by (auto simp: chunk_name_def dest: format_03d_inj)

lemma length_show_nat:
  "length (show_nat n) = (if n < 10 then 1 else Suc (length (show_nat (n div 10))))"
  by (subst show_nat.simps) simp

lemma length_show_nat_pos: "0 < length (show_nat n)"
  by (simp add: length_show_nat [of n])

lemma length_show_nat_le: "length (show_nat n) \<le> Suc k \<longleftrightarrow> n < 10 ^ Suc k"
proof (induction k arbitrary: n)
  case 0
  show ?case
    using length_show_nat_pos [of "n div 10"] by (simp add: length_show_nat [of n])
next
  case (Suc k)
  show ?case
  proof (cases "n < 10")
    case True
    have "(1::nat) \<le> 10 ^ Suc k" by (rule one_le_power) simp
    then have "(10::nat) * 1 \<le> 10 * 10 ^ Suc k" by (rule mult_le_mono2)
    then have "(10::nat) \<le> 10 ^ Suc (Suc k)" by (simp only: power_Suc mult_1_right)
    with True have "n < 10 ^ Suc (Suc k)" by (rule less_le_trans)
    with True show ?thesis by (simp add: length_show_nat [of n])
  next
    case False
    have "length (show_nat n) \<le> Suc (Suc k) \<longleftrightarrow> length (show_nat (n div 10)) \<le> Suc k"
      using False by (simp add: length_show_nat [of n])
    also have "\<dots> \<longleftrightarrow> n div 10 < 10 ^ Suc k" by (rule Suc.IH)
    also have "\<dots> \<longleftrightarrow> n < 10 ^ Suc k * 10" by (simp add: div_less_iff_less_mult)
    finally show ?thesis by (simp add: mult.commute)
  qed
qed

lemma length_show_nat_le3: "length (show_nat n) \<le> 3 \<longleftrightarrow> n < 1000"
  using length_show_nat_le [of n 2] by (simp add: numeral_3_eq_3)

lemma length_format_03d: "length (format_03d n) = 3 \<longleftrightarrow> n < 1000"
  using length_show_nat_le3 [of n] by (auto simp: format_03d_def)


lemma chunk_step_eq:
  assumes "i * n < length cidrs"
  shows "chunk_step joinpath cidrs output_dir (int n) prefix dry_run (output_files, fs) i =
     (output_files @ [joinpath output_dir (chunk_name prefix i)],
      if dry_run then fs
      else fs(joinpath output_dir (chunk_name prefix i) \<mapsto> chunk_text (chunk_of cidrs n i)))"
  by (simp add: py_slice_chunk [OF assms] chunk_name_def chunk_text_def chunk_of_def
      write_chunk_def Let_def)

lemma chunk_loop:
  assumes "\<forall>i\<in>set js. i * n < length cidrs"
  shows "foldl (chunk_step joinpath cidrs output_dir (int n) prefix dry_run) (output_files, fs) js =
     (output_files @ map (\<lambda>i. joinpath output_dir (chunk_name prefix i)) js,
      if dry_run then fs else write_chunks joinpath output_dir prefix cidrs n fs js)"
  using assms
proof (induction js arbitrary: output_files fs)
  case Nil
  show ?case by (simp add: write_chunks_def)
next
  case (Cons j js)
  then have j: "j * n < length cidrs" and js: "\<forall>i\<in>set js. i * n < length cidrs"
    by simp_all
  show ?case
    by (simp add: chunk_step_eq [OF j] Cons.IH [OF js] write_chunks_def
        del: chunk_step.simps)
qed

lemma chunk_loop_paths:
  "fst (foldl (chunk_step joinpath cidrs output_dir chunk_size prefix dry_run) (output_files, fs) js) =
     output_files @
       map (\<lambda>i. joinpath output_dir (prefix @ ''-part-'' @ format_03d (i + 1) @ ''.txt'')) js"
  by (induction js arbitrary: output_files fs) (simp_all add: Let_def)


lemma write_chunks_Cons:
  "write_chunks joinpath output_dir prefix cidrs n fs (j # js) =
     write_chunks joinpath output_dir prefix cidrs n
       (fs(joinpath output_dir (chunk_name prefix j) \<mapsto> chunk_text (chunk_of cidrs n j))) js"
  by (simp add: write_chunks_def)

lemma write_chunks_other:
  "p \<notin> (\<lambda>i. joinpath output_dir (chunk_name prefix i)) ` set js \<Longrightarrow>
   write_chunks joinpath output_dir prefix cidrs n fs js p = fs p"
proof (induction js arbitrary: fs)
  case Nil
  show ?case by (simp add: write_chunks_def)
next
  case (Cons j js)
  from Cons.prems have a: "p \<noteq> joinpath output_dir (chunk_name prefix j)"
    and b: "p \<notin> (\<lambda>i. joinpath output_dir (chunk_name prefix i)) ` set js"
    by simp_all
  show ?case
    using a by (simp only: write_chunks_Cons Cons.IH [OF b]) simp
qed

lemma write_chunks_at:
  assumes "inj_on (joinpath output_dir) (range (chunk_name prefix))" "i \<in> set js" "distinct js"
  shows "write_chunks joinpath output_dir prefix cidrs n fs js
           (joinpath output_dir (chunk_name prefix i)) = Some (chunk_text (chunk_of cidrs n i))"
  using assms(2,3)
proof (induction js arbitrary: fs)
  case Nil
  then show ?case by simp
next
  case (Cons j js)
  have sep: "a = b"
    if "joinpath output_dir (chunk_name prefix a) = joinpath output_dir (chunk_name prefix b)"
    for a b
  proof -
    have "chunk_name prefix a = chunk_name prefix b"
      using assms(1) that by (rule inj_onD) (rule rangeI)+
    then show ?thesis by (rule chunk_name_inj)
  qed
  from Cons.prems have dj: "j \<notin> set js" and djs: "distinct js" by simp_all
  show ?case
  proof (cases "i \<in> set js")
    case True
    show ?thesis
      by (simp only: write_chunks_Cons Cons.IH [OF True djs])
  next
    case False
    with Cons.prems have ij: "i = j" by simp
    have "joinpath output_dir (chunk_name prefix j)
        \<notin> (\<lambda>i. joinpath output_dir (chunk_name prefix i)) ` set js"
    proof
      assume "joinpath output_dir (chunk_name prefix j)
        \<in> (\<lambda>i. joinpath output_dir (chunk_name prefix i)) ` set js"
      then obtain k where "k \<in> set js"
        and "joinpath output_dir (chunk_name prefix j) = joinpath output_dir (chunk_name prefix k)"
        by (rule imageE)
      then show False using sep dj by blast
    qed
    then have "write_chunks joinpath output_dir prefix cidrs n
        (fs(joinpath output_dir (chunk_name prefix j) \<mapsto> chunk_text (chunk_of cidrs n j))) js
        (joinpath output_dir (chunk_name prefix j)) = Some (chunk_text (chunk_of cidrs n j))"
      by (simp add: write_chunks_other)
    then show ?thesis by (simp only: ij write_chunks_Cons)
  qed
qed

lemma chunk_count:
  assumes "0 < n" "0 < m"
  shows "i < nat \<lceil>real m / real n\<rceil> \<longleftrightarrow> i * n < m"
proof -
  define k where "k = nat ((int m + int n - 1) div int n)"
  have kz: "int k = (int m + int n - 1) div int n"
    unfolding k_def using assms by (simp add: pos_imp_zdiv_nonneg_iff)
  define r where "r = (int m + int n - 1) mod int n"
  have split: "int n * int k + r = int m + int n - 1"
    unfolding kz r_def by (rule mult_div_mod_eq)
  have r0: "0 \<le> r" and r1: "r < int n"
    unfolding r_def using assms by (simp_all add: pos_mod_sign pos_mod_bound)
  have up: "int m \<le> int n * int k" using split r1 by linarith
  have lo: "int n * int k < int m + int n" using split r0 by linarith
  have "i < k \<longleftrightarrow> i * n < m"
  proof
    assume "i < k"
    then have "Suc i \<le> k" by simp
    then have "int n * int (Suc i) \<le> int n * int k" by (simp add: mult_left_mono)
    with lo have "int n * int (Suc i) < int m + int n" by linarith
    then have "int (i * n) < int m" by (simp add: algebra_simps)
    then show "i * n < m" by (simp only: of_nat_less_iff)
  next
    assume "i * n < m"
    then have "int (i * n) < int m" by (simp only: of_nat_less_iff)
    with up have "int n * int i < int n * int k" by (simp add: algebra_simps)
    then have "int i < int k" using assms by (simp add: mult_less_cancel_left)
    then show "i < k" by simp
  qed
  then show ?thesis
    unfolding k_def ceil_div [OF assms(1), of m] .
qed


lemma chunk_text_concat: "chunk_text (concat xss) = concat (map chunk_text xss)"
  by (induction xss) (simp_all add: chunk_text_def)

lemma format_03d_examples:
  "format_03d 1 = ''001''" "format_03d 2 = ''002''" "format_03d 3 = ''003''"
  "format_03d 1000 = ''1000''"
  by code_simp+

lemma format_03d_Suc:
  "format_03d (Suc 0) = ''001''" "format_03d (Suc (Suc 0)) = ''002''"
  using format_03d_examples(1,2) by (simp_all add: numeral_2_eq_2)

lemma strip_entry: "strip ''10.0.0.0/24'' = ''10.0.0.0/24''"
  by (simp add: strip_def isspace_def)

lemma read_cidrs_replicate:
  "read_cidrs (replicate m ''10.0.0.0/24'') = replicate m ''10.0.0.0/24''"
  by (simp add: read_cidrs_def strip_entry startswith_def)

lemma posix_join_inj: "inj_on (posix_join dir) A"
  by (simp add: inj_on_def posix_join_def)

lemma name_stem_example: "name_stem ''aws.txt'' = ''aws''"
  by (simp add: name_stem_def)

section \<open>The claims about validate.py\<close>

text \<open>
  Claim C1. \<open>validate_file\<close> compares normal forms. For every parser and every file:
  the valid count is the number of distinct normal forms of the accepted entries, the
  duplicate count is the number of the remaining accepted entries, and the reported
  duplicate entries are the normal forms that occur more than once, as a sorted list
  without repetition. Line by line: an accepted entry whose normal form has not occurred
  before adds one to the valid count and leaves the duplicates alone; one whose normal
  form has occurred before adds one to the duplicate count and its normal form to the
  duplicate entries. For a parser that clears the host bits of the three lines
  \<open>10.0.0.0/24\<close>, \<open>10.0.0.1/24\<close>, \<open>10.0.1.0/24\<close>, the report has valid count 2,
  duplicate count 1 and the duplicate entries \<open>[10.0.0.0/24]\<close>.
\<close>

theorem duplicate_detection:
  "valid_cidrs (validate_file ip_network fp ls) = card (set (normalized ip_network ls))
   \<and> duplicates (validate_file ip_network fp ls) =
       length (normalized ip_network ls) - card (set (normalized ip_network ls))
   \<and> duplicate_entries (validate_file ip_network fp ls) =
       sorted_list_of_set (repeated (normalized ip_network ls))
   \<and> sorted (duplicate_entries (validate_file ip_network fp ls))
   \<and> distinct (duplicate_entries (validate_file ip_network fp ls))
   \<and> (entry_norm ip_network l = Some x \<and> x \<notin> set (normalized ip_network ls) \<longrightarrow>
        valid_cidrs (validate_file ip_network fp (ls @ [l])) =
          valid_cidrs (validate_file ip_network fp ls) + 1 \<and>
        duplicates (validate_file ip_network fp (ls @ [l])) =
          duplicates (validate_file ip_network fp ls) \<and>
        duplicate_entries (validate_file ip_network fp (ls @ [l])) =
          duplicate_entries (validate_file ip_network fp ls))
   \<and> (entry_norm ip_network l = Some x \<and> x \<in> set (normalized ip_network ls) \<longrightarrow>
        valid_cidrs (validate_file ip_network fp (ls @ [l])) =
          valid_cidrs (validate_file ip_network fp ls) \<and>
        duplicates (validate_file ip_network fp (ls @ [l])) =
          duplicates (validate_file ip_network fp ls) + 1 \<and>
        set (duplicate_entries (validate_file ip_network fp (ls @ [l]))) =
          insert x (set (duplicate_entries (validate_file ip_network fp ls))))
   \<and> (ip_network ''10.0.0.0/24'' = Inr (IPv4Network ''10.0.0.0/24'') \<and>
        ip_network ''10.0.0.1/24'' = Inr (IPv4Network ''10.0.0.0/24'') \<and>
        ip_network ''10.0.1.0/24'' = Inr (IPv4Network ''10.0.1.0/24'') \<longrightarrow>
        valid_cidrs (validate_file ip_network fp [''10.0.0.0/24'', ''10.0.0.1/24'', ''10.0.1.0/24'']) = 2 \<and>
        duplicates (validate_file ip_network fp [''10.0.0.0/24'', ''10.0.0.1/24'', ''10.0.1.0/24'']) = 1 \<and>
        duplicate_entries (validate_file ip_network fp [''10.0.0.0/24'', ''10.0.0.1/24'', ''10.0.1.0/24''])
          = [''10.0.0.0/24''])"
proof -
  let ?ns = "normalized ip_network ls"
  have le: "card (set ?ns) \<le> length ?ns" by (rule card_length)
  have closed:
    "valid_cidrs (validate_file ip_network fp ks) = card (set (normalized ip_network ks))"
    "duplicates (validate_file ip_network fp ks) =
       length (normalized ip_network ks) - card (set (normalized ip_network ks))"
    "duplicate_entries (validate_file ip_network fp ks) =
       sorted_list_of_set (repeated (normalized ip_network ks))" for ks
    by (simp_all only: validate_file_fields scan_file_counts)
  have ordered: "sorted (duplicate_entries (validate_file ip_network fp ls))"
    "distinct (duplicate_entries (validate_file ip_network fp ls))"
    by (simp_all only: closed sorted_sorted_list_of_set distinct_sorted_list_of_set)
  have first: "valid_cidrs (validate_file ip_network fp (ls @ [l])) =
          valid_cidrs (validate_file ip_network fp ls) + 1 \<and>
        duplicates (validate_file ip_network fp (ls @ [l])) =
          duplicates (validate_file ip_network fp ls) \<and>
        duplicate_entries (validate_file ip_network fp (ls @ [l])) =
          duplicate_entries (validate_file ip_network fp ls)"
    if e: "entry_norm ip_network l = Some x" and new: "x \<notin> set ?ns"
    using new le
    by (simp add: closed normalized_snoc_Some [OF e] repeated_snoc_new)
  have later: "valid_cidrs (validate_file ip_network fp (ls @ [l])) =
          valid_cidrs (validate_file ip_network fp ls) \<and>
        duplicates (validate_file ip_network fp (ls @ [l])) =
          duplicates (validate_file ip_network fp ls) + 1 \<and>
        set (duplicate_entries (validate_file ip_network fp (ls @ [l]))) =
          insert x (set (duplicate_entries (validate_file ip_network fp ls)))"
    if e: "entry_norm ip_network l = Some x" and old: "x \<in> set ?ns"
  proof -
    from old have same: "insert x (set ?ns) = set ?ns" by auto
    have fin: "finite (insert x (repeated ?ns))" by (simp add: finite_repeated)
    have sets: "set (sorted_list_of_set (insert x (repeated ?ns))) =
        insert x (set (sorted_list_of_set (repeated ?ns)))"
      by (simp only: set_sorted_list_of_set [OF fin] set_sorted_list_of_set [OF finite_repeated])
    have counts: "card (set (?ns @ [x])) = card (set ?ns)"
      "length (?ns @ [x]) - card (set (?ns @ [x])) = length ?ns - card (set ?ns) + 1"
      "length (?ns @ [x]) - card (set ?ns) = length ?ns - card (set ?ns) + 1"
      using same le by simp_all
    show ?thesis
      by (simp only: closed normalized_snoc_Some [OF e] repeated_snoc_old [OF old] sets counts
          simp_thms)
  qed
  have example: "valid_cidrs (validate_file ip_network fp [''10.0.0.0/24'', ''10.0.0.1/24'', ''10.0.1.0/24'']) = 2 \<and>
        duplicates (validate_file ip_network fp [''10.0.0.0/24'', ''10.0.0.1/24'', ''10.0.1.0/24'']) = 1 \<and>
        duplicate_entries (validate_file ip_network fp [''10.0.0.0/24'', ''10.0.0.1/24'', ''10.0.1.0/24''])
          = [''10.0.0.0/24'']"
    if a: "ip_network ''10.0.0.0/24'' = Inr (IPv4Network ''10.0.0.0/24'')"
      and b: "ip_network ''10.0.0.1/24'' = Inr (IPv4Network ''10.0.0.0/24'')"
      and c: "ip_network ''10.0.1.0/24'' = Inr (IPv4Network ''10.0.1.0/24'')"
  proof -
    have s: "strip ''10.0.0.0/24'' = ''10.0.0.0/24''" "strip ''10.0.0.1/24'' = ''10.0.0.1/24''"
      "strip ''10.0.1.0/24'' = ''10.0.1.0/24''"
      by (simp_all add: strip_def isspace_def)
    have n: "normalized ip_network [''10.0.0.0/24'', ''10.0.0.1/24'', ''10.0.1.0/24''] =
        [''10.0.0.0/24'', ''10.0.0.0/24'', ''10.0.1.0/24'']"
      by (simp add: normalized_def map_filter_def entry_norm_def s skipped_def startswith_def a b c)
    have r: "repeated [''10.0.0.0/24'', ''10.0.0.0/24'', ''10.0.1.0/24''] = {''10.0.0.0/24''}"
      by (auto simp: repeated_def split: if_splits)
    show ?thesis
      by (simp add: closed n r)
  qed
  show ?thesis
    using closed [of ls] ordered first later example by blast
qed


text \<open>The theorem at the reference parser: the third line is a first occurrence, the
  second line repeats the normal form of the first.\<close>

theorem duplicate_detection_witness:
  "entry_norm ipv4_network ''10.0.1.0/24'' = Some ''10.0.1.0/24''
   \<and> ''10.0.1.0/24'' \<notin> set (normalized ipv4_network [''10.0.0.0/24'', ''10.0.0.1/24''])
   \<and> valid_cidrs (validate_file ipv4_network ''a.txt'' ([''10.0.0.0/24'', ''10.0.0.1/24''] @ [''10.0.1.0/24''])) =
       valid_cidrs (validate_file ipv4_network ''a.txt'' [''10.0.0.0/24'', ''10.0.0.1/24'']) + 1
   \<and> entry_norm ipv4_network ''10.0.0.1/24'' = Some ''10.0.0.0/24''
   \<and> ''10.0.0.0/24'' \<in> set (normalized ipv4_network [''10.0.0.0/24''])
   \<and> duplicates (validate_file ipv4_network ''a.txt'' ([''10.0.0.0/24''] @ [''10.0.0.1/24''])) =
       duplicates (validate_file ipv4_network ''a.txt'' [''10.0.0.0/24'']) + 1
   \<and> ipv4_network ''10.0.0.0/24'' = Inr (IPv4Network ''10.0.0.0/24'')
   \<and> ipv4_network ''10.0.0.1/24'' = Inr (IPv4Network ''10.0.0.0/24'')
   \<and> ipv4_network ''10.0.1.0/24'' = Inr (IPv4Network ''10.0.1.0/24'')
   \<and> valid_cidrs (validate_file ipv4_network ''a.txt'' [''10.0.0.0/24'', ''10.0.0.1/24'', ''10.0.1.0/24'']) = 2
   \<and> duplicates (validate_file ipv4_network ''a.txt'' [''10.0.0.0/24'', ''10.0.0.1/24'', ''10.0.1.0/24'']) = 1
   \<and> duplicate_entries (validate_file ipv4_network ''a.txt'' [''10.0.0.0/24'', ''10.0.0.1/24'', ''10.0.1.0/24''])
       = [''10.0.0.0/24'']"
proof -
  have e1: "entry_norm ipv4_network ''10.0.1.0/24'' = Some ''10.0.1.0/24''"
    and e2: "entry_norm ipv4_network ''10.0.0.1/24'' = Some ''10.0.0.0/24''"
    by (simp_all add: entry_norm_def strip_examples skipped_def startswith_def
        ipv4_network_examples)
  have n1: "''10.0.1.0/24'' \<notin> set (normalized ipv4_network [''10.0.0.0/24'', ''10.0.0.1/24''])"
    and n2: "''10.0.0.0/24'' \<in> set (normalized ipv4_network [''10.0.0.0/24''])"
    by (simp_all add: normalized_def map_filter_def entry_norm_def strip_examples skipped_def
        startswith_def ipv4_network_examples)
  show ?thesis
    using e1 e2 n1 n2 ipv4_network_examples(1,2,3)
      duplicate_detection [of ipv4_network "''a.txt''" "[''10.0.0.0/24'', ''10.0.0.1/24'']"
        "''10.0.1.0/24''" "''10.0.1.0/24''"]
      duplicate_detection [of ipv4_network "''a.txt''" "[''10.0.0.0/24'']"
        "''10.0.0.1/24''" "''10.0.0.0/24''"]
    by blast
qed


text \<open>
  Claim C4. \<open>validate_cidr\<close> on a line whose stripped form the parser reads as an IPv4
  network returns \<open>(True, None)\<close>; on a line whose stripped form is neither blank nor a
  comment and is read as an IPv6 network it returns \<open>False\<close> with the message
  \<open>IPv6 not supported: \<close> followed by the stripped line; on a line whose stripped form is
  neither blank nor a comment and is rejected it returns \<open>False\<close> with the parser's
  message unchanged.
\<close>

theorem validate_cidr_contract:
  "(ip_network (strip raw) = Inr (IPv4Network n) \<longrightarrow> validate_cidr ip_network raw = (True, None))
   \<and> (\<not> skipped (strip raw) \<and> ip_network (strip raw) = Inr (IPv6Network n) \<longrightarrow>
        validate_cidr ip_network raw = (False, Some (''IPv6 not supported: '' @ strip raw)))
   \<and> (\<not> skipped (strip raw) \<and> ip_network (strip raw) = Inl e \<longrightarrow>
        validate_cidr ip_network raw = (False, Some e))"
proof (intro conjI impI)
  assume "ip_network (strip raw) = Inr (IPv4Network n)"
  then show "validate_cidr ip_network raw = (True, None)"
    by (simp add: validate_cidr_def Let_def)
next
  assume "\<not> skipped (strip raw) \<and> ip_network (strip raw) = Inr (IPv6Network n)"
  then show "validate_cidr ip_network raw = (False, Some (''IPv6 not supported: '' @ strip raw))"
    by (simp add: validate_cidr_entry)
next
  assume "\<not> skipped (strip raw) \<and> ip_network (strip raw) = Inl e"
  then show "validate_cidr ip_network raw = (False, Some e)"
    by (simp add: validate_cidr_entry)
qed



theorem validate_cidr_contract_witness:
  "dual_stack_example (strip ''10.0.0.5/24'') = Inr (IPv4Network ''10.0.0.0/24'')
   \<and> validate_cidr dual_stack_example ''10.0.0.5/24'' = (True, None)
   \<and> \<not> skipped (strip '' 2001:db8::/32 '')
   \<and> dual_stack_example (strip '' 2001:db8::/32 '') = Inr (IPv6Network ''2001:db8::/32'')
   \<and> validate_cidr dual_stack_example '' 2001:db8::/32 '' =
       (False, Some (''IPv6 not supported: '' @ strip '' 2001:db8::/32 ''))
   \<and> \<not> skipped (strip ''10.0.0.300/24'')
   \<and> dual_stack_example (strip ''10.0.0.300/24'') = Inl (no_network ''10.0.0.300/24'')
   \<and> validate_cidr dual_stack_example ''10.0.0.300/24'' = (False, Some (no_network ''10.0.0.300/24''))"
proof -
  have p4: "dual_stack_example (strip ''10.0.0.5/24'') = Inr (IPv4Network ''10.0.0.0/24'')"
    and p6: "dual_stack_example (strip '' 2001:db8::/32 '') = Inr (IPv6Network ''2001:db8::/32'')"
    and pe: "dual_stack_example (strip ''10.0.0.300/24'') = Inl (no_network ''10.0.0.300/24'')"
    by (simp_all add: dual_stack_example_def strip_examples ipv4_network_examples)
  have s6: "\<not> skipped (strip '' 2001:db8::/32 '')"
    and se: "\<not> skipped (strip ''10.0.0.300/24'')"
    by (simp_all add: strip_examples skipped_def startswith_def)
  show ?thesis
    using p4 p6 pe s6 se
      validate_cidr_contract [of dual_stack_example "''10.0.0.5/24''" "''10.0.0.0/24''"]
      validate_cidr_contract [of dual_stack_example "'' 2001:db8::/32 ''" "''2001:db8::/32''"]
      validate_cidr_contract [of dual_stack_example "''10.0.0.300/24''" _ "no_network ''10.0.0.300/24''"]
    by blast
qed


text \<open>
  Claim C9. A blank line or a comment is valid for \<open>validate_cidr\<close> and leaves the three
  counters of the report as they were; every other line adds one to exactly one of
  them; so the three counters add up to the number of lines that are neither blank nor
  comments, and \<open>total_lines\<close> is the number of all lines.
\<close>

theorem count_partition:
  "(skipped (strip l) \<longrightarrow>
      validate_cidr ip_network l = (True, None) \<and>
      counters (validate_file ip_network fp (ls @ [l])) = counters (validate_file ip_network fp ls))
   \<and> (\<not> skipped (strip l) \<longrightarrow>
      (case counters (validate_file ip_network fp ls) of (v, i, d) \<Rightarrow>
         counters (validate_file ip_network fp (ls @ [l])) \<in>
           {(v + 1, i, d), (v, i + 1, d), (v, i, d + 1)}))
   \<and> valid_cidrs (validate_file ip_network fp ls) + invalid_cidrs (validate_file ip_network fp ls)
        + duplicates (validate_file ip_network fp ls) =
      length (filter (\<lambda>l. \<not> skipped (strip l)) ls)
   \<and> total_lines (validate_file ip_network fp ls) = length ls"
proof -
  define r where "r = validate_file ip_network fp"
  let ?ns = "normalized ip_network ls"
  have le: "card (set ?ns) \<le> length ?ns" by (rule card_length)
  have step: "fst (scan_file ip_network fp (ls @ [l])) =
      fst (validate_line ip_network (scan_file ip_network fp ls) (Suc (length ls), l))"
    by (simp only: scan_file_snoc)
  obtain r0 seen where st: "scan_file ip_network fp ls = (r0, seen)"
    by (cases "scan_file ip_network fp ls")
  have seen: "seen = set ?ns"
    using scan_file_counts(6) [of ip_network fp ls] st by simp
  have skip: "counters (r (ls @ [l])) = counters (r ls)" if "skipped (strip l)"
    using that unfolding r_def counters_def validate_file_fields step st
    by (simp add: validate_line_skipped del: validate_line.simps)
  have entry: "case counters (r ls) of (v, i, d) \<Rightarrow>
      counters (r (ls @ [l])) \<in> {(v + 1, i, d), (v, i + 1, d), (v, i, d + 1)}"
    if ns: "\<not> skipped (strip l)"
  proof -
    consider (bad) "is_invalid ip_network l" | (entry) x where "entry_norm ip_network l = Some x"
      using line_cases [of l ip_network] ns by blast
    then show ?thesis
    proof cases
      case bad
      then show ?thesis
        unfolding r_def counters_def validate_file_fields step st
        by (simp add: validate_line_invalid del: validate_line.simps)
    next
      case entry
      then show ?thesis
        unfolding r_def counters_def validate_file_fields step st
        by (simp add: validate_line_entry del: validate_line.simps)
    qed
  qed
  have total: "valid_cidrs (r ls) + invalid_cidrs (r ls) + duplicates (r ls) =
      length (filter (\<lambda>l. \<not> skipped (strip l)) ls)"
    unfolding r_def validate_file_fields scan_file_counts
    using le length_normalized_filter [of ip_network ls] by simp
  have lines: "total_lines (r ls) = length ls"
    unfolding r_def validate_file_fields scan_file_counts by simp
  show ?thesis
    using skip entry total lines validate_cidr_skipped [of l ip_network]
    unfolding r_def by blast
qed



theorem count_partition_witness:
  "skipped (strip ''# list'')
   \<and> validate_cidr ipv4_network ''# list'' = (True, None)
   \<and> counters (validate_file ipv4_network ''a.txt'' ([''10.0.0.0/24'', ''bad''] @ [''# list''])) =
       counters (validate_file ipv4_network ''a.txt'' [''10.0.0.0/24'', ''bad''])
   \<and> \<not> skipped (strip ''10.0.0.5/24'')
   \<and> (case counters (validate_file ipv4_network ''a.txt'' [''10.0.0.0/24'', ''bad'']) of
         (v, i, d) \<Rightarrow>
           counters (validate_file ipv4_network ''a.txt'' ([''10.0.0.0/24'', ''bad''] @ [''10.0.0.5/24'']))
             \<in> {(v + 1, i, d), (v, i + 1, d), (v, i, d + 1)})
   \<and> valid_cidrs (validate_file ipv4_network ''a.txt'' [''10.0.0.0/24'', ''bad'', ''# list''])
       + invalid_cidrs (validate_file ipv4_network ''a.txt'' [''10.0.0.0/24'', ''bad'', ''# list''])
       + duplicates (validate_file ipv4_network ''a.txt'' [''10.0.0.0/24'', ''bad'', ''# list'']) = 2"
proof -
  have h1: "skipped (strip ''# list'')"
    by (simp add: strip_examples skipped_def startswith_def)
  have h2: "\<not> skipped (strip ''10.0.0.5/24'')"
    by (simp add: strip_examples skipped_def startswith_def)
  have n: "length (filter (\<lambda>l. \<not> skipped (strip l)) [''10.0.0.0/24'', ''bad'', ''# list'']) = 2"
    by (simp add: strip_examples skipped_def startswith_def)
  have c1: "validate_cidr ipv4_network ''# list'' = (True, None) \<and>
      counters (validate_file ipv4_network ''a.txt'' ([''10.0.0.0/24'', ''bad''] @ [''# list''])) =
      counters (validate_file ipv4_network ''a.txt'' [''10.0.0.0/24'', ''bad''])"
    by (rule count_partition [of "''# list''" ipv4_network "''a.txt''" "[''10.0.0.0/24'', ''bad'']",
          THEN conjunct1, THEN mp, OF h1])
  have c2: "case counters (validate_file ipv4_network ''a.txt'' [''10.0.0.0/24'', ''bad'']) of
      (v, i, d) \<Rightarrow>
        counters (validate_file ipv4_network ''a.txt'' ([''10.0.0.0/24'', ''bad''] @ [''10.0.0.5/24'']))
          \<in> {(v + 1, i, d), (v, i + 1, d), (v, i, d + 1)}"
    by (rule count_partition [of "''10.0.0.5/24''" ipv4_network "''a.txt''" "[''10.0.0.0/24'', ''bad'']",
          THEN conjunct2, THEN conjunct1, THEN mp, OF h2])
  have c3: "valid_cidrs (validate_file ipv4_network ''a.txt'' [''10.0.0.0/24'', ''bad'', ''# list''])
       + invalid_cidrs (validate_file ipv4_network ''a.txt'' [''10.0.0.0/24'', ''bad'', ''# list''])
       + duplicates (validate_file ipv4_network ''a.txt'' [''10.0.0.0/24'', ''bad'', ''# list'']) = 2"
    using count_partition [of "''x''" ipv4_network "''a.txt''" "[''10.0.0.0/24'', ''bad'', ''# list'']",
        THEN conjunct2, THEN conjunct2, THEN conjunct1]
    unfolding n .
  show ?thesis
    by (intro conjI h1 h2 c1 [THEN conjunct1] c1 [THEN conjunct2] c2 c3)
qed







section \<open>The claims about chunk.py\<close>

text \<open>
  Claim C2, as the code has it. For a file with at least one entry and a chunk size
  \<open>N \<ge> 1\<close>, \<open>chunk_file\<close> returns \<open>k = ceil(count / N)\<close> paths, \<open>k\<close> at least 1; the \<open>i\<close>-th
  chunk is the consecutive group of at most \<open>N\<close> entries that starts at entry \<open>i * N\<close>, and
  it is not empty; the chunks in index order, and their texts, put together give the
  entries of the input and their text. A run that is not a dry run writes the text of
  the \<open>i\<close>-th chunk to the \<open>i\<close>-th path (where the join keeps the chunk names apart) and
  leaves every other file as it was; a dry run writes nothing. The \<open>i\<close>-th path joins the
  output directory and the name \<open>prefix-part-NNN.txt\<close>, where \<open>NNN\<close> is the number
  \<open>i + 1\<close> in decimal, padded with zeros to at least three digits: exactly three digits
  up to chunk 999, more from chunk 1000 on. With 4500 entries and chunk size 2000 there
  are 3 chunks of 2000, 2000 and 500 entries named \<open>-part-001\<close>, \<open>-002\<close>, \<open>-003\<close>.
\<close>

theorem chunk_partition:
  fixes joinpath :: "'p \<Rightarrow> string \<Rightarrow> 'p" and stem :: "'p \<Rightarrow> string" and fs :: "'p \<rightharpoonup> string"
    and lines :: "string list" and input_path output_dir :: 'p and chunk_size :: int
    and prefix :: "string option" and dry_run :: bool
  defines "cidrs \<equiv> read_cidrs lines"
    and "n \<equiv> nat chunk_size"
    and "k \<equiv> nat \<lceil>real (length (read_cidrs lines)) / real_of_int chunk_size\<rceil>"
    and "pre \<equiv> (case prefix of None \<Rightarrow> stem input_path | Some p \<Rightarrow> p)"
  assumes nonempty: "read_cidrs lines \<noteq> []" and size: "1 \<le> chunk_size"
  shows "chunk_file joinpath stem fs lines input_path output_dir chunk_size prefix dry_run =
           Inr (map (\<lambda>i. joinpath output_dir (chunk_name pre i)) [0..<k],
                if dry_run then fs
                else write_chunks joinpath output_dir pre cidrs n fs [0..<k])
       \<and> 0 < k
       \<and> (\<forall>i<k. chunk_of cidrs n i \<noteq> [] \<and> length (chunk_of cidrs n i) \<le> n)
       \<and> concat (map (chunk_of cidrs n) [0..<k]) = cidrs
       \<and> concat (map (\<lambda>i. chunk_text (chunk_of cidrs n i)) [0..<k]) = chunk_text cidrs
       \<and> (\<forall>p. p \<notin> (\<lambda>i. joinpath output_dir (chunk_name pre i)) ` {..<k} \<longrightarrow>
             write_chunks joinpath output_dir pre cidrs n fs [0..<k] p = fs p)
       \<and> (inj_on (joinpath output_dir) (range (chunk_name pre)) \<longrightarrow>
             (\<forall>i<k. write_chunks joinpath output_dir pre cidrs n fs [0..<k]
                       (joinpath output_dir (chunk_name pre i)) =
                     Some (chunk_text (chunk_of cidrs n i))))
       \<and> (\<forall>i. chunk_name pre i = pre @ ''-part-'' @ format_03d (i + 1) @ ''.txt'' \<and>
                (length (format_03d (i + 1)) = 3 \<longleftrightarrow> i + 1 < 1000))
       \<and> (length cidrs = 4500 \<and> chunk_size = 2000 \<longrightarrow>
             k = 3 \<and>
             map (\<lambda>i. length (chunk_of cidrs n i)) [0..<k] = [2000, 2000, 500] \<and>
             map (chunk_name pre) [0..<k] =
               [pre @ ''-part-001.txt'', pre @ ''-part-002.txt'', pre @ ''-part-003.txt''])"
proof -
  let ?m = "length cidrs"
  have n: "0 < n" and cs: "chunk_size = int n"
    using size by (simp_all add: n_def)
  have m: "0 < ?m"
    using nonempty by (simp add: cidrs_def)
  have k_eq: "k = nat \<lceil>real ?m / real n\<rceil>"
    by (simp add: k_def cidrs_def cs)
  have num: "nat ((int ?m + chunk_size - 1) div chunk_size) = k"
    unfolding k_eq cs by (simp only: ceil_div [OF n])
  have inside: "i < k \<longleftrightarrow> i * n < ?m" for i
    unfolding k_eq by (rule chunk_count [OF n m])
  have all: "\<forall>i\<in>set [0..<k]. i * n < ?m"
    by (simp add: inside)
  have run: "chunk_file joinpath stem fs lines input_path output_dir chunk_size prefix dry_run =
      Inr (map (\<lambda>i. joinpath output_dir (chunk_name pre i)) [0..<k],
           if dry_run then fs else write_chunks joinpath output_dir pre cidrs n fs [0..<k])"
  proof -
    have "chunk_file joinpath stem fs lines input_path output_dir chunk_size prefix dry_run =
        Inr (foldl (chunk_step joinpath cidrs output_dir (int n) pre dry_run) ([], fs) [0..<k])"
      using nonempty n num
      by (simp add: chunk_file_def Let_def cidrs_def [symmetric] pre_def [symmetric] cs
          del: chunk_step.simps)
    then show ?thesis
      by (simp only: chunk_loop [OF all] append_Nil)
  qed
  have kpos: "0 < k"
    using inside [of 0] m by simp
  have sizes: "\<forall>i<k. chunk_of cidrs n i \<noteq> [] \<and> length (chunk_of cidrs n i) \<le> n"
    using n by (auto simp: chunk_of_def inside)
  have "\<not> k * n < ?m" using inside [of k] by simp
  then have cover: "?m \<le> k * n" by simp
  have whole: "concat (map (chunk_of cidrs n) [0..<k]) = cidrs"
    using cover by (simp add: chunk_of_def [abs_def] concat_chunks)
  have texts: "concat (map (\<lambda>i. chunk_text (chunk_of cidrs n i)) [0..<k]) = chunk_text cidrs"
  proof -
    have "chunk_text (concat (map (chunk_of cidrs n) [0..<k])) =
        concat (map (\<lambda>i. chunk_text (chunk_of cidrs n i)) [0..<k])"
      by (simp add: chunk_text_concat comp_def)
    then show ?thesis by (simp only: whole)
  qed
  have others: "\<forall>p. p \<notin> (\<lambda>i. joinpath output_dir (chunk_name pre i)) ` {..<k} \<longrightarrow>
      write_chunks joinpath output_dir pre cidrs n fs [0..<k] p = fs p"
    by (simp add: write_chunks_other lessThan_atLeast0)
  have files: "\<forall>i<k. write_chunks joinpath output_dir pre cidrs n fs [0..<k]
      (joinpath output_dir (chunk_name pre i)) = Some (chunk_text (chunk_of cidrs n i))"
    if "inj_on (joinpath output_dir) (range (chunk_name pre))"
    using write_chunks_at [of joinpath output_dir pre _ "[0..<k]" cidrs n fs] that by simp
  have names: "\<forall>i. chunk_name pre i = pre @ ''-part-'' @ format_03d (i + 1) @ ''.txt'' \<and>
      (length (format_03d (i + 1)) = 3 \<longleftrightarrow> i + 1 < 1000)"
    by (simp add: chunk_name_def length_format_03d)
  have example: "k = 3 \<and>
      map (\<lambda>i. length (chunk_of cidrs n i)) [0..<k] = [2000, 2000, 500] \<and>
      map (chunk_name pre) [0..<k] =
        [pre @ ''-part-001.txt'', pre @ ''-part-002.txt'', pre @ ''-part-003.txt'']"
    if ex: "length cidrs = 4500 \<and> chunk_size = 2000"
  proof -
    from ex cs have n2: "n = 2000" by simp
    have "k = nat ((int 4500 + 2000 - 1) div 2000)"
      using num ex by simp
    then have k3: "k = 3" by simp
    have up: "[0..<3] = [0, 1, 2]" by (simp add: upt_rec)
    show ?thesis
      using ex
      by (simp add: k3 up n2 chunk_of_def chunk_name_def format_03d_examples format_03d_Suc)
  qed
  show ?thesis
    using run kpos sizes whole texts others files names example by blast
qed



text \<open>Claim C2 as stated gives every chunk file a three-digit index. With 1000 entries
  and chunk size 1 the last path carries the four-digit index 1000.\<close>

theorem chunk_name_counterexample:
  "fst (projr (chunk_file posix_join name_stem Map.empty (replicate 1000 ''10.0.0.0/24'')
                 ''in.txt'' ''out'' 1 (Some ''p'') True)) ! 999 = ''out/p-part-1000.txt''"
proof -
  have "fst (projr (chunk_file posix_join name_stem Map.empty (replicate 1000 ''10.0.0.0/24'')
                 ''in.txt'' ''out'' 1 (Some ''p'') True)) =
      map (\<lambda>i. posix_join ''out'' (''p'' @ ''-part-'' @ format_03d (i + 1) @ ''.txt'')) [0..<1000]"
    by (simp add: chunk_file_def read_cidrs_replicate chunk_loop_paths Let_def
        del: chunk_step.simps)
  moreover have "map (\<lambda>i. posix_join ''out'' (''p'' @ ''-part-'' @ format_03d (i + 1) @ ''.txt''))
      [0..<1000] ! 999 = posix_join ''out'' (''p'' @ ''-part-'' @ format_03d (0 + 999 + 1) @ ''.txt'')"
    by (rule nth_map_upt) simp
  ultimately show ?thesis
    by (simp add: posix_join_def format_03d_examples)
qed


text \<open>The theorem on 4500 entries with chunk size 2000 and the default prefix.\<close>

theorem chunk_partition_witness:
  "read_cidrs (replicate 4500 ''10.0.0.0/24'') \<noteq> []
   \<and> (1::int) \<le> 2000
   \<and> length (read_cidrs (replicate 4500 ''10.0.0.0/24'')) = 4500
   \<and> inj_on (posix_join ''out'') (range (chunk_name ''aws''))
   \<and> fst (projr (chunk_file posix_join name_stem Map.empty (replicate 4500 ''10.0.0.0/24'')
                   ''aws.txt'' ''out'' 2000 None False)) =
       [''out/aws-part-001.txt'', ''out/aws-part-002.txt'', ''out/aws-part-003.txt'']
   \<and> snd (projr (chunk_file posix_join name_stem Map.empty (replicate 4500 ''10.0.0.0/24'')
                   ''aws.txt'' ''out'' 2000 None False)) ''out/aws-part-003.txt'' =
       Some (chunk_text (replicate 500 ''10.0.0.0/24''))"
proof -
  let ?L = "replicate 4500 ''10.0.0.0/24''"
  let ?k = "nat \<lceil>real (length (read_cidrs ?L)) / real_of_int 2000\<rceil>"
  have h1: "read_cidrs ?L \<noteq> []"
    by (simp add: read_cidrs_replicate)
  have h2: "(1::int) \<le> 2000" by simp
  have h3: "length (read_cidrs ?L) = 4500"
    by (simp add: read_cidrs_replicate)
  have h4: "inj_on (posix_join ''out'') (range (chunk_name ''aws''))"
    by (rule posix_join_inj)
  note T = chunk_partition [where lines = ?L and chunk_size = 2000 and joinpath = posix_join
      and stem = name_stem and fs = Map.empty and input_path = "''aws.txt''"
      and output_dir = "''out''" and prefix = None and dry_run = False, OF h1 h2,
      simplified option.case name_stem_example if_False]
  have run: "chunk_file posix_join name_stem Map.empty ?L ''aws.txt'' ''out'' 2000 None False =
      Inr (map (\<lambda>i. posix_join ''out'' (chunk_name ''aws'' i)) [0..<?k],
           write_chunks posix_join ''out'' ''aws'' (read_cidrs ?L) (nat 2000) Map.empty [0..<?k])"
    using T by (elim conjE)
  have ex: "?k = 3 \<and>
      map (chunk_name ''aws'') [0..<?k] =
        [''aws'' @ ''-part-001.txt'', ''aws'' @ ''-part-002.txt'', ''aws'' @ ''-part-003.txt'']"
    using T h3 by (elim conjE) simp
  have files: "\<forall>i<?k. write_chunks posix_join ''out'' ''aws'' (read_cidrs ?L) (nat 2000)
      Map.empty [0..<?k] (posix_join ''out'' (chunk_name ''aws'' i)) =
      Some (chunk_text (chunk_of (read_cidrs ?L) (nat 2000) i))"
    using T h4 by (elim conjE) simp
  have paths: "map (\<lambda>i. posix_join ''out'' (chunk_name ''aws'' i)) [0..<?k] =
      [''out/aws-part-001.txt'', ''out/aws-part-002.txt'', ''out/aws-part-003.txt'']"
  proof -
    have "map (\<lambda>i. posix_join ''out'' (chunk_name ''aws'' i)) [0..<?k] =
        map (posix_join ''out'') (map (chunk_name ''aws'') [0..<?k])"
      by (simp only: map_map comp_def)
    also have "\<dots> = map (posix_join ''out'')
        [''aws'' @ ''-part-001.txt'', ''aws'' @ ''-part-002.txt'', ''aws'' @ ''-part-003.txt'']"
      by (simp only: ex [THEN conjunct2])
    finally show ?thesis by (simp add: posix_join_def)
  qed
  have third: "posix_join ''out'' (chunk_name ''aws'' 2) = ''out/aws-part-003.txt''"
    by (simp add: posix_join_def chunk_name_def format_03d_examples)
  have last: "chunk_of (read_cidrs ?L) (nat 2000) 2 = replicate 500 ''10.0.0.0/24''"
    by (simp add: chunk_of_def read_cidrs_replicate)
  have "2 < ?k" using ex by simp
  with files have "write_chunks posix_join ''out'' ''aws'' (read_cidrs ?L) (nat 2000)
      Map.empty [0..<?k] (posix_join ''out'' (chunk_name ''aws'' 2)) =
      Some (chunk_text (chunk_of (read_cidrs ?L) (nat 2000) 2))"
    by blast
  then have written: "write_chunks posix_join ''out'' ''aws'' (read_cidrs ?L) (nat 2000)
      Map.empty [0..<?k] ''out/aws-part-003.txt'' = Some (chunk_text (replicate 500 ''10.0.0.0/24''))"
    by (simp only: third last)
  show ?thesis
    by (intro conjI h1 h2 h3 h4) (simp_all only: run sum.sel fst_conv snd_conv paths written)
qed







end
